theory Spec2Isabelle
  imports Main
begin

section \<open>Go strings and the standard-library functions idset.go calls\<close>

text \<open>
  A Go string is a sequence of bytes: \<open>string\<close> (a \<open>char list\<close>).
  \<open>len(s)\<close> is \<open>length s\<close> and the slice expression \<open>s[lo:hi]\<close> keeps the
  bytes from index \<open>lo\<close> up to, not including, index \<open>hi\<close>.
\<close>

definition slice :: "string \<Rightarrow> nat \<Rightarrow> nat \<Rightarrow> string" where
  "slice s lo hi = drop lo (take hi s)"

text \<open>\<open>strings.HasPrefix\<close>: \<open>len(s) >= len(prefix) && s[:len(prefix)] == prefix\<close>.\<close>

definition HasPrefix :: "string \<Rightarrow> string \<Rightarrow> bool" where
  "HasPrefix s pre = (length pre \<le> length s \<and> take (length pre) s = pre)"

text \<open>\<open>strings.HasSuffix\<close>: \<open>len(s) >= len(suffix) && s[len(s)-len(suffix):] == suffix\<close>.\<close>

definition HasSuffix :: "string \<Rightarrow> string \<Rightarrow> bool" where
  "HasSuffix s suf = (length suf \<le> length s \<and> drop (length s - length suf) s = suf)"

text \<open>\<open>strings.TrimPrefix\<close>: \<open>s\<close> without the leading \<open>prefix\<close>, or \<open>s\<close> unchanged.\<close>

definition TrimPrefix :: "string \<Rightarrow> string \<Rightarrow> string" where
  "TrimPrefix s pre = (if HasPrefix s pre then drop (length pre) s else s)"

text \<open>
  \<open>strings.Split(s, sep)\<close> for a separator of one byte, which is how idset.go calls it
  (\<open>","\<close>): the substrings between the separators, one more than there are separators.
\<close>

fun Split :: "string \<Rightarrow> char \<Rightarrow> string list" where
  "Split [] sep = [[]]"
| "Split (c # cs) sep =
     (if c = sep then [] # Split cs sep
      else (case Split cs sep of [] \<Rightarrow> [[c]] | t # ts \<Rightarrow> (c # t) # ts))"

text \<open>\<open>strings.Join(elems, sep)\<close>.\<close>

fun Join :: "string list \<Rightarrow> string \<Rightarrow> string" where
  "Join [] sep = []"
| "Join [x] sep = x"
| "Join (x # y # ys) sep = x @ sep @ Join (y # ys) sep"


section \<open>The map underneath: \<open>map[ID]struct{}\<close>\<close>

text \<open>
  \<open>type IDSet map[ID]struct{}\<close>. The values carry nothing, so a map is its keys. Go
  leaves the iteration order of a map open; the model keeps the keys of a map as a list
  in the order in which \<open>range\<close> yields them, so that every statement made for all key
  lists holds for every order the runtime may choose. A map holds each key once: the
  representation invariant is \<open>distinct\<close>.

  The nil map is a value of its own: \<open>None\<close>. \<open>Some ks\<close> is an allocated map with keys
  \<open>ks\<close>; \<open>Some []\<close> is the allocated empty map, \<open>make(IDSet)\<close>.
\<close>

type_synonym 'id IDSet = "'id list option"

definition IDSet_inv :: "'id IDSet \<Rightarrow> bool" where
  "IDSet_inv s = (case s of None \<Rightarrow> True | Some ks \<Rightarrow> distinct ks)"

text \<open>\<open>m[id] = struct{}{}\<close> on an allocated map.\<close>

definition map_assign :: "'id list \<Rightarrow> 'id \<Rightarrow> 'id list" where
  "map_assign ks id' = (if id' \<in> set ks then ks else ks @ [id'])"

text \<open>\<open>delete(m, id)\<close> on an allocated map.\<close>

definition map_delete :: "'id list \<Rightarrow> 'id \<Rightarrow> 'id list" where
  "map_delete ks id' = filter (\<lambda>k. k \<noteq> id') ks"

text \<open>\<open>len(s)\<close>; the length of the nil map is 0.\<close>

definition len :: "'id IDSet \<Rightarrow> nat" where
  "len s = (case s of None \<Rightarrow> 0 | Some ks \<Rightarrow> length ks)"

text \<open>The keys \<open>for id := range s\<close> yields, in order; ranging over the nil map yields none.\<close>

definition range_keys :: "'id IDSet \<Rightarrow> 'id list" where
  "range_keys s = (case s of None \<Rightarrow> [] | Some ks \<Rightarrow> ks)"


section \<open>Queries of idset.go\<close>

text \<open>
  \<open>Contains\<close> (idset.go 183-189): the nil check first, then the lookup \<open>_, ok := s[id]\<close>.
\<close>

definition Contains :: "'id IDSet \<Rightarrow> 'id \<Rightarrow> bool" where
  "Contains s id' = (case s of None \<Rightarrow> False | Some ks \<Rightarrow> id' \<in> set ks)"

definition Len :: "'id IDSet \<Rightarrow> nat" where
  "Len s = len s"

definition IsEmpty :: "'id IDSet \<Rightarrow> bool" where
  "IsEmpty s = (len s = 0)"

definition IsNull :: "'id IDSet \<Rightarrow> bool" where
  "IsNull s = (s = None)"

text \<open>
  \<open>Equal\<close> (idset.go 233-243): the lengths are compared first, then the loop over \<open>s\<close>
  returns false at the first id that \<open>other\<close> does not contain.
\<close>

fun Equal_loop :: "'id IDSet \<Rightarrow> 'id list \<Rightarrow> bool" where
  "Equal_loop other [] = True"
| "Equal_loop other (id' # ids) =
     (if \<not> Contains other id' then False else Equal_loop other ids)"

definition Equal :: "'id IDSet \<Rightarrow> 'id IDSet \<Rightarrow> bool" where
  "Equal s other = (if len s \<noteq> len other then False else Equal_loop other (range_keys s))"

text \<open>
  \<open>Diff\<close> (idset.go 218-231): a fresh map, filled by one loop over \<open>s\<close> and one over
  \<open>other\<close>. \<open>diff.Add(id)\<close> is \<open>diff[id] = struct{}{}\<close> on that allocated map.
\<close>

fun Diff_loop :: "'id IDSet \<Rightarrow> 'id list \<Rightarrow> 'id list \<Rightarrow> 'id list" where
  "Diff_loop other diff [] = diff"
| "Diff_loop other diff (id' # ids) =
     (if \<not> Contains other id' then Diff_loop other (map_assign diff id') ids
      else Diff_loop other diff ids)"

definition Diff :: "'id IDSet \<Rightarrow> 'id IDSet \<Rightarrow> 'id IDSet" where
  "Diff s other =
     (let diff = [];
          diff = Diff_loop other diff (range_keys s);
          diff = Diff_loop s diff (range_keys other)
      in Some diff)"

text \<open>
  \<open>ForEach\<close> (idset.go 141-149). The callback is a Go closure: it may read and change
  whatever it captured, so it is a function of the id and of a state \<open>'st\<close> of the
  caller's choosing, returning its error (\<open>None\<close> is the nil error) and the new state.
\<close>

fun ForEach_loop :: "('id \<Rightarrow> 'st \<Rightarrow> 'e option \<times> 'st) \<Rightarrow> 'id list \<Rightarrow> 'st \<Rightarrow> 'e option \<times> 'st" where
  "ForEach_loop callback [] st = (None, st)"
| "ForEach_loop callback (id' # ids) st =
     (case callback id' st of
        (Some err, st') \<Rightarrow> (Some err, st')
      | (None, st') \<Rightarrow> ForEach_loop callback ids st')"

definition ForEach :: "'id IDSet \<Rightarrow> ('id \<Rightarrow> 'st \<Rightarrow> 'e option \<times> 'st) \<Rightarrow> 'st \<Rightarrow> 'e option \<times> 'st" where
  "ForEach s callback st = ForEach_loop callback (range_keys s) st"

text \<open>
  A callback that keeps a record of its own invocations: it runs \<open>callback\<close> and
  appends the id it was called with, and what \<open>callback\<close> returned, to a log it carries
  in its state. It is an argument one can hand to \<open>ForEach\<close>, used to state what
  \<open>ForEach\<close> visits.
\<close>

definition logged :: "('id \<Rightarrow> 'st \<Rightarrow> 'e option \<times> 'st) \<Rightarrow>
    'id \<Rightarrow> ('id \<times> 'e option) list \<times> 'st \<Rightarrow> 'e option \<times> ('id \<times> 'e option) list \<times> 'st" where
  "logged callback id' = (\<lambda>(log, st).
     (case callback id' st of (r, st') \<Rightarrow> (r, (log @ [(id', r)], st'))))"


section \<open>Construction from strings\<close>

text \<open>
  \<open>IDFromString\<close> is in the part of package uu that is not at hand; it is a parameter
  \<open>idFromString\<close> here, returning \<open>Inl err\<close> for \<open>(_, err)\<close> with \<open>err != nil\<close> and
  \<open>Inr id\<close> for \<open>(id, nil)\<close>. The functions of idset.go return the pair Go returns:
  the set and the error, \<open>None\<close> being nil in both places.

  \<open>MakeIDSetFromStrings\<close> (idset.go 27-37): \<open>s\<close> is a fresh allocated map, so \<open>s.Add(id)\<close>
  is \<open>s[id] = struct{}{}\<close> on it.
\<close>

fun MakeIDSetFromStrings_loop ::
    "(string \<Rightarrow> 'e + 'id) \<Rightarrow> 'id list \<Rightarrow> string list \<Rightarrow> 'id IDSet \<times> 'e option" where
  "MakeIDSetFromStrings_loop idFromString s [] = (Some s, None)"
| "MakeIDSetFromStrings_loop idFromString s (str # strs) =
     (case idFromString str of
        Inl err \<Rightarrow> (None, Some err)
      | Inr id' \<Rightarrow> MakeIDSetFromStrings_loop idFromString (map_assign s id') strs)"

definition MakeIDSetFromStrings :: "(string \<Rightarrow> 'e + 'id) \<Rightarrow> string list \<Rightarrow> 'id IDSet \<times> 'e option" where
  "MakeIDSetFromStrings idFromString strs = MakeIDSetFromStrings_loop idFromString [] strs"

text \<open>
  \<open>IDSetFromString\<close> (idset.go 50-65). \<open>strutil.TrimSpace\<close> is the parameter \<open>trimSpace\<close>.
  The first \<open>if\<close> rebinds \<open>str\<close> and falls through; its \<open>else if\<close> returns.
\<close>

definition IDSetFromString ::
    "(string \<Rightarrow> 'e + 'id) \<Rightarrow> (string \<Rightarrow> string) \<Rightarrow> string \<Rightarrow> 'id IDSet \<times> 'e option" where
  "IDSetFromString idFromString trimSpace str0 =
     (let str = TrimPrefix str0 ''set'';
          bracketed = (HasPrefix str ''['' \<and> HasSuffix str '']'')
      in if \<not> bracketed \<and> (str = ''null'' \<or> str = ''NULL'') then (None, None)
         else
           let str = (if bracketed then slice str 1 (length str - 1) else str)
           in if str = [] then (None, None)
              else MakeIDSetFromStrings idFromString (map trimSpace (Split str CHR '','')))"


section \<open>The sorted projection and the output formats\<close>

text \<open>
  An \<open>IDSlice\<close> is a list of identifiers; \<open>[]\<close> is the nil slice, which is what
  \<open>AsSlice\<close> (idset.go 123-134) returns for a set of length 0. Otherwise it has the keys
  in the order \<open>range\<close> yields them.
\<close>

definition AsSlice :: "'id IDSet \<Rightarrow> 'id list" where
  "AsSlice s = (if len s = 0 then [] else range_keys s)"

text \<open>
  Modelled from the spec: \<open>IDSlice.Sort\<close> is not at hand. The spec has the ordered
  projection sorted by the identifier's total order, which is the order of the type
  class here.
\<close>

definition IDSlice_Sort :: "'id::linorder list \<Rightarrow> 'id list" where
  "IDSlice_Sort sl = sort sl"

text \<open>\<open>AsSortedSlice\<close> (idset.go 152-156).\<close>

definition AsSortedSlice :: "'id::linorder IDSet \<Rightarrow> 'id list" where
  "AsSortedSlice s = (let sl = AsSlice s; sl = IDSlice_Sort sl in sl)"

text \<open>
  Modelled from the spec: \<open>IDSlice.String\<close> is not at hand. The spec has the canonical
  string form as \<open>set\<close> followed by the bracketed, comma-separated sequence of each
  identifier's string form, \<open>set[]\<close> for the empty set; the part after \<open>set\<close> is the
  slice's. \<open>ID.String\<close> is the parameter \<open>idString\<close>.
\<close>

definition IDSlice_String :: "('id \<Rightarrow> string) \<Rightarrow> 'id list \<Rightarrow> string" where
  "IDSlice_String idString sl = ''['' @ Join (map idString sl) '','' @ '']''"

text \<open>\<open>String\<close> (idset.go 82-84).\<close>

definition String :: "('id::linorder \<Rightarrow> string) \<Rightarrow> 'id IDSet \<Rightarrow> string" where
  "String idString s = ''set'' @ IDSlice_String idString (AsSortedSlice s)"

text \<open>\<open>MarshalText\<close> (idset.go 262-264): the bytes of \<open>String\<close> and no error.\<close>

definition MarshalText :: "('id::linorder \<Rightarrow> string) \<Rightarrow> 'id IDSet \<Rightarrow> string \<times> 'e option" where
  "MarshalText idString s = (String idString s, None)"

text \<open>
  A method with a pointer receiver, \<open>func (s *IDSet) ...\<close>, assigns to the variable
  \<open>*s\<close>: it takes the variable's value and returns its new value with the error. Where
  the source returns before the assignment, the variable keeps its value.

  \<open>UnmarshalText\<close> (idset.go 267-274).
\<close>

definition UnmarshalText ::
    "(string \<Rightarrow> 'e + 'id) \<Rightarrow> (string \<Rightarrow> string) \<Rightarrow> string \<Rightarrow> 'id IDSet \<Rightarrow> 'id IDSet \<times> 'e option" where
  "UnmarshalText idFromString trimSpace text s =
     (case IDSetFromString idFromString trimSpace text of
        (parsed, Some err) \<Rightarrow> (s, Some err)
      | (parsed, None) \<Rightarrow> (parsed, None))"

text \<open>
  \<open>MarshalJSON\<close> (idset.go 304-309). \<open>IDSlice.MarshalJSON\<close> is the parameter
  \<open>sliceMarshalJSON\<close>, returning the bytes and the error.
\<close>

definition MarshalJSON ::
    "('id list \<Rightarrow> string \<times> 'e option) \<Rightarrow> 'id::linorder IDSet \<Rightarrow> string \<times> 'e option" where
  "MarshalJSON sliceMarshalJSON s =
     (if s = None then (''null'', None) else sliceMarshalJSON (AsSortedSlice s))"

text \<open>
  \<open>UnmarshalJSON\<close> (idset.go 314-326). \<open>IDSlice.UnmarshalJSON\<close>, called on a fresh nil
  slice, is the parameter \<open>sliceUnmarshalJSON\<close>: \<open>Inl err\<close>, or \<open>Inr\<close> the decoded slice.
  \<open>IDSlice.AsSet\<close> is the parameter \<open>asSet\<close>.
\<close>

definition UnmarshalJSON ::
    "(string \<Rightarrow> 'e + 'id list) \<Rightarrow> ('id list \<Rightarrow> 'id IDSet) \<Rightarrow> string \<Rightarrow> 'id IDSet \<Rightarrow> 'id IDSet \<times> 'e option" where
  "UnmarshalJSON sliceUnmarshalJSON asSet data s =
     (if data = ''null'' then (None, None)
      else (case sliceUnmarshalJSON data of
              Inl err \<Rightarrow> (s, Some err)
            | Inr idSlice \<Rightarrow> (asSet idSlice, None)))"

text \<open>
  A \<open>driver.Value\<close>, and the \<open>any\<close> that \<open>Scan\<close> receives, is \<open>'v option\<close>: \<open>None\<close> is
  the nil interface value, SQL NULL.

  \<open>Scan\<close> (idset.go 280-292). \<open>IDSlice.Scan\<close>, called on a fresh nil slice with a value
  that is not nil, is the parameter \<open>sliceScan\<close>.
\<close>

definition Scan ::
    "('v \<Rightarrow> 'e + 'id list) \<Rightarrow> ('id list \<Rightarrow> 'id IDSet) \<Rightarrow> 'v option \<Rightarrow> 'id IDSet \<Rightarrow> 'id IDSet \<times> 'e option" where
  "Scan sliceScan asSet val s =
     (case val of
        None \<Rightarrow> (None, None)
      | Some v \<Rightarrow>
          (case sliceScan v of
             Inl err \<Rightarrow> (s, Some err)
           | Inr idSlice \<Rightarrow> (asSet idSlice, None)))"

text \<open>\<open>Value\<close> (idset.go 296-301). \<open>IDSlice.Value\<close> is the parameter \<open>sliceValue\<close>.\<close>

definition Value ::
    "('id list \<Rightarrow> 'v option \<times> 'e option) \<Rightarrow> 'id::linorder IDSet \<Rightarrow> 'v option \<times> 'e option" where
  "Value sliceValue s =
     (if s = None then (None, None) else sliceValue (AsSortedSlice s))"


section \<open>Maps are references: the store\<close>

text \<open>
  A Go map value is nil or a reference to a map that the runtime allocated; two
  variables may hold the same reference. The store is the list of the allocated maps, a
  map's address is its index, and allocation appends. The mutating methods of idset.go
  change the map their receiver refers to.
\<close>

datatype mapref = NilMap | MapAt nat

type_synonym 'id store = "'id list list"

definition deref :: "'id store \<Rightarrow> mapref \<Rightarrow> 'id IDSet" where
  "deref h r = (case r of NilMap \<Rightarrow> None | MapAt a \<Rightarrow> Some (h ! a))"

text \<open>
  \<open>Clone\<close> (idset.go 211-216): nil for nil; otherwise \<open>maps.Clone\<close> allocates a map
  with the same keys.
\<close>

definition Clone :: "'id store \<Rightarrow> mapref \<Rightarrow> mapref \<times> 'id store" where
  "Clone h s = (case s of NilMap \<Rightarrow> (NilMap, h) | MapAt a \<Rightarrow> (MapAt (length h), h @ [h ! a]))"

text \<open>Go panics on an assignment to an entry of the nil map.\<close>

datatype panic = AssignmentToEntryInNilMap

text \<open>\<open>Add\<close> (idset.go 177-179).\<close>

definition Add :: "'id store \<Rightarrow> mapref \<Rightarrow> 'id \<Rightarrow> panic + 'id store" where
  "Add h s id' =
     (case s of
        NilMap \<Rightarrow> Inl AssignmentToEntryInNilMap
      | MapAt a \<Rightarrow> Inr (h[a := map_assign (h ! a) id']))"

text \<open>\<open>AddSlice\<close> (idset.go 158-162) and \<open>AddSet\<close> (164-168): one assignment per id.\<close>

fun AddSlice :: "'id store \<Rightarrow> mapref \<Rightarrow> 'id list \<Rightarrow> panic + 'id store" where
  "AddSlice h set' [] = Inr h"
| "AddSlice h set' (id' # ids) =
     (case Add h set' id' of Inl p \<Rightarrow> Inl p | Inr h' \<Rightarrow> AddSlice h' set' ids)"

definition AddSet :: "'id store \<Rightarrow> mapref \<Rightarrow> mapref \<Rightarrow> panic + 'id store" where
  "AddSet h s other = AddSlice h s (range_keys (deref h other))"

text \<open>\<open>Delete\<close> (idset.go 191-193); \<open>delete\<close> on the nil map does nothing.\<close>

definition Delete :: "'id store \<Rightarrow> mapref \<Rightarrow> 'id \<Rightarrow> 'id store" where
  "Delete h s id' = (case s of NilMap \<Rightarrow> h | MapAt a \<Rightarrow> h[a := map_delete (h ! a) id'])"

text \<open>\<open>Clear\<close> (idset.go 195-197); \<open>clear\<close> on the nil map does nothing.\<close>

definition Clear :: "'id store \<Rightarrow> mapref \<Rightarrow> 'id store" where
  "Clear h s = (case s of NilMap \<Rightarrow> h | MapAt a \<Rightarrow> h[a := []])"

text \<open>\<open>DeleteSlice\<close> (idset.go 199-203) and \<open>DeleteSet\<close> (205-209).\<close>

fun DeleteSlice :: "'id store \<Rightarrow> mapref \<Rightarrow> 'id list \<Rightarrow> 'id store" where
  "DeleteSlice h s [] = h"
| "DeleteSlice h s (id' # sl) = DeleteSlice (Delete h s id') s sl"

definition DeleteSet :: "'id store \<Rightarrow> mapref \<Rightarrow> mapref \<Rightarrow> 'id store" where
  "DeleteSet h s other = DeleteSlice h s (range_keys (deref h other))"

text \<open>
  A call of one of the mutating methods, and a sequence of such calls on one receiver,
  which stops at the first panic.
\<close>

datatype 'id call =
    CallAdd 'id | CallAddSlice "'id list" | CallAddSet mapref
  | CallDelete 'id | CallDeleteSlice "'id list" | CallDeleteSet mapref | CallClear

fun run_call :: "'id store \<Rightarrow> mapref \<Rightarrow> 'id call \<Rightarrow> panic + 'id store" where
  "run_call h s (CallAdd id') = Add h s id'"
| "run_call h s (CallAddSlice sl) = AddSlice h s sl"
| "run_call h s (CallAddSet other) = AddSet h s other"
| "run_call h s (CallDelete id') = Inr (Delete h s id')"
| "run_call h s (CallDeleteSlice sl) = Inr (DeleteSlice h s sl)"
| "run_call h s (CallDeleteSet other) = Inr (DeleteSet h s other)"
| "run_call h s CallClear = Inr (Clear h s)"

fun run_calls :: "'id store \<Rightarrow> mapref \<Rightarrow> 'id call list \<Rightarrow> panic + 'id store" where
  "run_calls h s [] = Inr h"
| "run_calls h s (c # cs) =
     (case run_call h s c of Inl p \<Rightarrow> Inl p | Inr h' \<Rightarrow> run_calls h' s cs)"


section \<open>An instance of the collaborators\<close>

text \<open>
  The identifier type, its parser and printer, \<open>strutil.TrimSpace\<close> and the codecs of
  \<open>IDSlice\<close> are parameters of the model. This instance has them concrete, to run the
  model on: identifiers are natural numbers written in decimal, an error is the text
  that failed to parse, white space is blank, tab, newline and carriage return, a slice
  encodes as an array of numbers, and \<open>AsSet\<close> assigns each element to a fresh map.
\<close>

definition digit_char :: "nat \<Rightarrow> char" where
  "digit_char d = ''0123456789'' ! d"

fun nat_ID_String :: "nat \<Rightarrow> string" where
  "nat_ID_String n =
     (if n < 10 then [digit_char n] else nat_ID_String (n div 10) @ [digit_char (n mod 10)])"

declare nat_ID_String.simps [simp del]

definition digit_val :: "char \<Rightarrow> nat option" where
  "digit_val c = (if c \<in> set ''0123456789'' then Some (of_char c - 48) else None)"

fun parse_digits :: "nat \<Rightarrow> string \<Rightarrow> nat option" where
  "parse_digits acc [] = Some acc"
| "parse_digits acc (c # cs) =
     (case digit_val c of None \<Rightarrow> None | Some d \<Rightarrow> parse_digits (10 * acc + d) cs)"

definition nat_IDFromString :: "string \<Rightarrow> string + nat" where
  "nat_IDFromString str =
     (if str = [] then Inl str
      else (case parse_digits 0 str of None \<Rightarrow> Inl str | Some n \<Rightarrow> Inr n))"

definition is_space :: "char \<Rightarrow> bool" where
  "is_space c = (c \<in> set [CHR '' '', CHR 0x09, CHR 0x0A, CHR 0x0D])"

definition ascii_TrimSpace :: "string \<Rightarrow> string" where
  "ascii_TrimSpace str = rev (dropWhile is_space (rev (dropWhile is_space str)))"

definition fresh_AsSet :: "'id list \<Rightarrow> 'id IDSet" where
  "fresh_AsSet sl = Some (fold (\<lambda>id' ks. map_assign ks id') sl [])"

definition nat_MarshalJSON :: "nat list \<Rightarrow> string \<times> string option" where
  "nat_MarshalJSON sl = (IDSlice_String nat_ID_String sl, None)"

fun parse_all :: "string list \<Rightarrow> string + nat list" where
  "parse_all [] = Inr []"
| "parse_all (t # ts) =
     (case nat_IDFromString (ascii_TrimSpace t) of
        Inl err \<Rightarrow> Inl err
      | Inr n \<Rightarrow> (case parse_all ts of Inl err \<Rightarrow> Inl err | Inr ns \<Rightarrow> Inr (n # ns)))"

definition nat_UnmarshalJSON :: "string \<Rightarrow> string + nat list" where
  "nat_UnmarshalJSON data =
     (if HasPrefix data ''['' \<and> HasSuffix data '']''
      then (let inner = slice data 1 (length data - 1)
            in if inner = [] then Inr [] else parse_all (Split inner CHR '',''))
      else Inl data)"

definition nat_Value :: "nat list \<Rightarrow> nat list option \<times> string option" where
  "nat_Value sl = (Some sl, None)"


section \<open>Theorems\<close>

lemma TrimPrefix_append [simp]: "TrimPrefix (pre @ s) pre = s"
  by (simp add: TrimPrefix_def HasPrefix_def)

subsection \<open>Keys, membership and equality\<close>

lemma set_map_assign [simp]: "set (map_assign ks x) = insert x (set ks)"
  by (auto simp: map_assign_def)

lemma distinct_map_assign [simp]: "distinct ks \<Longrightarrow> distinct (map_assign ks x)"
  by (simp add: map_assign_def)

lemma Contains_range_keys: "Contains s x = (x \<in> set (range_keys s))"
  by (simp add: Contains_def range_keys_def split: option.splits)

lemma len_range_keys: "len s = length (range_keys s)"
  by (simp add: len_def range_keys_def split: option.splits)

lemma Equal_loop_iff: "Equal_loop other ids = (set ids \<subseteq> set (range_keys other))"
  by (induction ids) (auto simp: Contains_range_keys)

lemma IDSet_inv_range_keys: "IDSet_inv s = distinct (range_keys s)"
  by (simp add: IDSet_inv_def range_keys_def split: option.splits)

lemma Equal_iff_same_keys:
  assumes "IDSet_inv s" and "IDSet_inv t"
  shows "Equal s t = (set (range_keys s) = set (range_keys t))"
proof -
  have ds: "distinct (range_keys s)" and dt: "distinct (range_keys t)"
    using assms by (simp_all add: IDSet_inv_range_keys)
  show ?thesis
  proof
    assume "Equal s t"
    then have l: "length (range_keys s) = length (range_keys t)"
      and sub: "set (range_keys s) \<subseteq> set (range_keys t)"
      by (auto simp: Equal_def len_range_keys Equal_loop_iff split: if_splits)
    from l ds dt have "card (set (range_keys s)) = card (set (range_keys t))"
      by (simp add: distinct_card)
    with sub show "set (range_keys s) = set (range_keys t)"
      by (simp add: card_subset_eq)
  next
    assume e: "set (range_keys s) = set (range_keys t)"
    then have "length (range_keys s) = length (range_keys t)"
      using ds dt by (metis distinct_card)
    with e show "Equal s t"
      by (simp add: Equal_def len_range_keys Equal_loop_iff)
  qed
qed

lemma set_Diff_loop:
  "set (Diff_loop other diff ids) = set diff \<union> {x \<in> set ids. \<not> Contains other x}"
  by (induction ids arbitrary: diff) auto

lemma distinct_Diff_loop:
  "distinct diff \<Longrightarrow> distinct (Diff_loop other diff ids)"
  by (induction ids arbitrary: diff) auto

lemma range_keys_Diff:
  "set (range_keys (Diff s other)) =
     (set (range_keys s) - set (range_keys other)) \<union> (set (range_keys other) - set (range_keys s))"
  by (auto simp: Diff_def range_keys_def set_Diff_loop Contains_def split: option.splits)

lemma IDSet_inv_Diff: "IDSet_inv (Diff s other)"
  by (simp add: Diff_def IDSet_inv_def distinct_Diff_loop)

text \<open>
  C1, as the code has it: parsing the canonical text form \<open>"set[]"\<close> with
  \<open>IDSetFromString\<close> returns the nil set and no error, whatever the identifier parser
  is: the brackets are stripped, the remainder is empty, and the empty remainder
  returns \<open>nil, nil\<close>. The result is empty (\<open>IsEmpty\<close>) and it is null (\<open>IsNull\<close>).
\<close>

theorem IDSetFromString_empty_brackets:
  "IDSetFromString idFromString trimSpace ''set[]'' = (None, None)
   \<and> IsEmpty (fst (IDSetFromString idFromString trimSpace ''set[]''))
   \<and> IsNull (fst (IDSetFromString idFromString trimSpace ''set[]''))"
  by (simp add: IDSetFromString_def TrimPrefix_def HasPrefix_def HasSuffix_def slice_def
      IsEmpty_def IsNull_def len_def)

text \<open>
  The claim as it was stated, that the result is not null, fails at this input.
\<close>

theorem IDSetFromString_empty_brackets_counterexample:
  "\<not> (\<not> IsNull (fst (IDSetFromString nat_IDFromString ascii_TrimSpace ''set[]''))
      \<and> IsEmpty (fst (IDSetFromString nat_IDFromString ascii_TrimSpace ''set[]'')))"
  by (simp add: IDSetFromString_def TrimPrefix_def HasPrefix_def HasSuffix_def slice_def IsNull_def)

text \<open>
  C8: \<open>Contains\<close> on the nil set returns false for every identifier. \<open>Contains\<close> is a
  total function with no error result: the nil check comes before the lookup.
\<close>

theorem Contains_nil: "Contains None id' = False"
  by (simp add: Contains_def)

text \<open>
  C10: \<open>Equal\<close> does not tell the nil set from the allocated empty set, in either
  order, although \<open>IsNull\<close> does.
\<close>

theorem Equal_nil_empty:
  "Equal None (Some []) \<and> Equal (Some []) None \<and> IsNull None \<and> \<not> IsNull (Some [])"
  by (simp add: Equal_def len_def range_keys_def IsNull_def)

text \<open>
  C3: \<open>Diff\<close> is the symmetric difference. An identifier is in \<open>Diff A B\<close> if and
  only if it is in exactly one of \<open>A\<close> and \<open>B\<close>; \<open>Diff A B\<close> is \<open>Equal\<close> to
  \<open>Diff B A\<close>; and \<open>Diff A A\<close> is empty. This holds for nil and allocated sets alike.
\<close>

theorem Diff_symmetric_difference:
  "Contains (Diff A B) x = (Contains A x \<noteq> Contains B x)
   \<and> Equal (Diff A B) (Diff B A)
   \<and> IsEmpty (Diff A A)"
proof -
  have 1: "Contains (Diff A B) x = (Contains A x \<noteq> Contains B x)"
    by (auto simp: Contains_range_keys range_keys_Diff)
  have 2: "Equal (Diff A B) (Diff B A)"
    by (simp add: Equal_iff_same_keys IDSet_inv_Diff range_keys_Diff Un_commute)
  have "set (range_keys (Diff A A)) = {}"
    by (simp add: range_keys_Diff)
  then have 3: "IsEmpty (Diff A A)"
    by (simp add: IsEmpty_def len_range_keys)
  from 1 2 3 show ?thesis by simp
qed

subsection \<open>Construction from strings\<close>

lemma MakeIDSetFromStrings_loop_all_valid:
  "find (\<lambda>str. isl (idFromString str)) strs = None \<Longrightarrow> distinct s \<Longrightarrow>
   \<exists>ks. MakeIDSetFromStrings_loop idFromString s strs = (Some ks, None) \<and> distinct ks
        \<and> set ks = set s \<union> Inr -` (idFromString ` set strs)"
proof (induction strs arbitrary: s)
  case Nil
  then show ?case by simp
next
  case (Cons str strs)
  from Cons.prems(1) obtain x where x: "idFromString str = Inr x"
    by (cases "idFromString str") (auto split: if_splits)
  from Cons.prems(1) have rest: "find (\<lambda>str. isl (idFromString str)) strs = None"
    by (auto split: if_splits)
  from Cons.IH [OF rest, of "map_assign s x"] Cons.prems(2)
  obtain ks where ks: "MakeIDSetFromStrings_loop idFromString (map_assign s x) strs = (Some ks, None)"
    "distinct ks" "set ks = set (map_assign s x) \<union> Inr -` (idFromString ` set strs)"
    by auto
  have "Inr -` (idFromString ` set (str # strs)) = insert x (Inr -` (idFromString ` set strs))"
    using x by auto
  with ks x show ?case by auto
qed

lemma MakeIDSetFromStrings_loop_first_invalid:
  "find (\<lambda>str. isl (idFromString str)) strs = Some bad \<Longrightarrow>
   \<exists>err. idFromString bad = Inl err \<and>
     MakeIDSetFromStrings_loop idFromString s strs = (None, Some err)"
proof (induction strs arbitrary: s)
  case Nil
  then show ?case by simp
next
  case (Cons str strs)
  show ?case
  proof (cases "idFromString str")
    case (Inl err)
    with Cons.prems show ?thesis by simp
  next
    case (Inr x)
    with Cons.prems have "find (\<lambda>str. isl (idFromString str)) strs = Some bad" by simp
    from Cons.IH [OF this, of "map_assign s x"] Inr show ?thesis by simp
  qed
qed

text \<open>
  C5: \<open>MakeIDSetFromStrings\<close> is atomic. Take the first string of the list that the
  identifier parser rejects (\<open>find\<close> returns it). If there is none, the result is an
  allocated set and no error, and the set holds exactly the identifiers the strings
  parse to, each once. If there is one, the result is the nil set together with the
  error the parser returned for that string: nothing of the set built so far is
  returned.
\<close>

theorem MakeIDSetFromStrings_atomic:
  "(case find (\<lambda>str. isl (idFromString str)) strs of
      None \<Rightarrow>
        (\<exists>ks. MakeIDSetFromStrings idFromString strs = (Some ks, None) \<and> distinct ks
            \<and> set ks = Inr -` (idFromString ` set strs))
    | Some bad \<Rightarrow>
        (\<exists>err. idFromString bad = Inl err
            \<and> MakeIDSetFromStrings idFromString strs = (None, Some err)))"
proof (cases "find (\<lambda>str. isl (idFromString str)) strs")
  case None
  from MakeIDSetFromStrings_loop_all_valid [OF None, of "[]"] None
  show ?thesis by (simp add: MakeIDSetFromStrings_def)
next
  case (Some bad)
  from MakeIDSetFromStrings_loop_first_invalid [OF Some, of "[]"] Some
  show ?thesis by (simp add: MakeIDSetFromStrings_def)
qed

subsection \<open>Iteration\<close>

lemma logged_apply:
  "logged callback x (log, st) = (case callback x st of (r, st') \<Rightarrow> (r, (log @ [(x, r)], st')))"
  by (simp add: logged_def)

lemma ForEach_loop_logged:
  "ForEach_loop (logged callback) ids (log0, st) = (r, (log, st')) \<Longrightarrow>
   ForEach_loop callback ids st = (r, st')
   \<and> (\<exists>new. log = log0 @ new
        \<and> map fst new = take (length new) ids
        \<and> list_all (\<lambda>(x, res). res = None) (butlast new)
        \<and> (case r of
              None \<Rightarrow> map fst new = ids \<and> list_all (\<lambda>(x, res). res = None) new
            | Some err \<Rightarrow> new \<noteq> [] \<and> snd (last new) = Some err))"
proof (induction ids arbitrary: log0 st)
  case Nil
  then show ?case by auto
next
  case (Cons x ids)
  obtain res st1 where cb: "callback x st = (res, st1)" by (cases "callback x st")
  show ?case
  proof (cases res)
    case (Some err)
    with cb Cons.prems show ?thesis by (auto simp: logged_apply)
  next
    case None
    with cb Cons.prems
    have "ForEach_loop (logged callback) ids (log0 @ [(x, None)], st1) = (r, (log, st'))"
      by (simp add: logged_apply)
    from Cons.IH [OF this] obtain new where
      run: "ForEach_loop callback ids st1 = (r, st')" and
      new: "log = (log0 @ [(x, None)]) @ new" "map fst new = take (length new) ids"
        "list_all (\<lambda>(x, res). res = None) (butlast new)"
        "(case r of None \<Rightarrow> map fst new = ids \<and> list_all (\<lambda>(x, res). res = None) new
          | Some err \<Rightarrow> new \<noteq> [] \<and> snd (last new) = Some err)"
      by blast
    let ?new = "(x, None) # new"
    have "log = log0 @ ?new" using new(1) by simp
    moreover have "map fst ?new = take (length ?new) (x # ids)" using new(2) by simp
    moreover have "list_all (\<lambda>(x, res). res = None) (butlast ?new)"
      using new(3) by (cases new) auto
    moreover have "(case r of None \<Rightarrow> map fst ?new = x # ids \<and> list_all (\<lambda>(x, res). res = None) ?new
          | Some err \<Rightarrow> ?new \<noteq> [] \<and> snd (last ?new) = Some err)"
      using new(4) by (auto split: option.splits)
    moreover have "ForEach_loop callback (x # ids) st = (r, st')"
      using cb None run by simp
    ultimately show ?thesis by blast
  qed
qed

text \<open>
  C7: what \<open>ForEach\<close> visits and returns. Run \<open>ForEach\<close> with a callback that logs
  its invocations (\<open>logged callback\<close>, from an empty log). Then the result and the
  caller's state are those of \<open>ForEach\<close> with \<open>callback\<close> itself; the ids visited are an
  initial part of the keys in iteration order, each visited once; every invocation but
  the last returned nil. If \<open>ForEach\<close> returns nil, every key was visited and every
  invocation returned nil. If \<open>ForEach\<close> returns an error, it is the error of the last
  invocation in the log: no id was visited after it.
\<close>

theorem ForEach_visits:
  assumes "IDSet_inv s"
    and "ForEach s (logged callback) ([], st) = (r, (log, st'))"
  shows "ForEach s callback st = (r, st')
    \<and> distinct (map fst log)
    \<and> map fst log = take (length log) (range_keys s)
    \<and> list_all (\<lambda>(x, res). res = None) (butlast log)
    \<and> (case r of
          None \<Rightarrow> map fst log = range_keys s \<and> list_all (\<lambda>(x, res). res = None) log
        | Some err \<Rightarrow> log \<noteq> [] \<and> snd (last log) = Some err)"
proof -
  from assms(2) have "ForEach_loop (logged callback) (range_keys s) ([], st) = (r, (log, st'))"
    by (simp add: ForEach_def)
  from ForEach_loop_logged [OF this]
  have *: "ForEach_loop callback (range_keys s) st = (r, st')"
    "map fst log = take (length log) (range_keys s)"
    "list_all (\<lambda>(x, res). res = None) (butlast log)"
    "(case r of
          None \<Rightarrow> map fst log = range_keys s \<and> list_all (\<lambda>(x, res). res = None) log
        | Some err \<Rightarrow> log \<noteq> [] \<and> snd (last log) = Some err)"
    by auto
  from assms(1) have "distinct (range_keys s)"
    by (simp add: IDSet_inv_range_keys)
  then have "distinct (take (length log) (range_keys s))" by simp
  with * show ?thesis by (simp add: ForEach_def)
qed

theorem ForEach_visits_witness:
  "IDSet_inv (Some [3, 1, 2 :: nat])
   \<and> ForEach (Some [3, 1, 2 :: nat])
        (logged (\<lambda>x st. (if x = 1 then Some ''stop'' else None, st + x))) ([], 0 :: nat)
      = (Some ''stop'', ([(3, None), (1, Some ''stop'')], 4))
   \<and> ForEach (Some [3, 1, 2 :: nat])
        (\<lambda>x st. (if x = 1 then Some ''stop'' else None, st + x)) (0 :: nat)
      = (Some ''stop'', 4)"
proof -
  have h1: "IDSet_inv (Some [3, 1, 2 :: nat])" by code_simp
  have h2: "ForEach (Some [3, 1, 2 :: nat])
        (logged (\<lambda>x st. (if x = 1 then Some ''stop'' else None, st + x))) ([], 0 :: nat)
      = (Some ''stop'', ([(3, None), (1, Some ''stop'')], 4))"
    by (simp add: ForEach_def range_keys_def logged_apply)
  from ForEach_visits [OF h1 h2] h1 h2 show ?thesis by simp
qed

subsection \<open>Serialization\<close>

lemma AsSlice_range_keys: "AsSlice s = range_keys s"
  by (simp add: AsSlice_def len_range_keys)

lemma AsSortedSlice_sort: "AsSortedSlice s = sort (range_keys s)"
  by (simp add: AsSortedSlice_def IDSlice_Sort_def AsSlice_range_keys)

lemma AsSortedSlice_Equal:
  fixes S1 S2 :: "'id::linorder IDSet"
  assumes "IDSet_inv S1" and "IDSet_inv S2" and "Equal S1 S2"
  shows "AsSortedSlice S1 = AsSortedSlice S2"
proof -
  from assms have same: "set (range_keys S1) = set (range_keys S2)"
    by (simp add: Equal_iff_same_keys)
  from assms(1,2) have "distinct (sort (range_keys S1))" "distinct (sort (range_keys S2))"
    by (simp_all add: IDSet_inv_range_keys)
  moreover from same have "set (sort (range_keys S1)) = set (sort (range_keys S2))" by simp
  ultimately have "sort (range_keys S1) = sort (range_keys S2)"
    by (intro sorted_distinct_set_unique) simp_all
  then show ?thesis by (simp add: AsSortedSlice_sort)
qed

text \<open>
  C6: serialization does not depend on the insertion history. For two allocated sets
  (of distinct keys, in any two orders) that are \<open>Equal\<close>, the sorted projection is the
  same list, and so \<open>String\<close>, \<open>MarshalText\<close>, \<open>MarshalJSON\<close> and \<open>Value\<close> return the
  same, whatever the identifier's printer and the slice's encoders are.
\<close>

theorem serialization_deterministic:
  fixes S1 S2 :: "'id::linorder IDSet"
  assumes "IDSet_inv S1" and "IDSet_inv S2"
    and "\<not> IsNull S1" and "\<not> IsNull S2"
    and "Equal S1 S2"
  shows "AsSortedSlice S1 = AsSortedSlice S2
    \<and> String idString S1 = String idString S2
    \<and> MarshalText idString S1 = (MarshalText idString S2 :: string \<times> 'e option)
    \<and> MarshalJSON sliceMarshalJSON S1 = MarshalJSON sliceMarshalJSON S2
    \<and> Value sliceValue S1 = Value sliceValue S2"
proof -
  have "AsSortedSlice S1 = AsSortedSlice S2"
    using assms(1,2,5) by (rule AsSortedSlice_Equal)
  moreover from assms(3,4) obtain ks1 ks2 where "S1 = Some ks1" "S2 = Some ks2"
    by (auto simp: IsNull_def)
  ultimately show ?thesis
    by (simp add: String_def MarshalText_def MarshalJSON_def Value_def)
qed

theorem serialization_deterministic_witness:
  "IDSet_inv (Some [30, 1, 2 :: nat]) \<and> IDSet_inv (Some [2, 30, 1 :: nat])
   \<and> \<not> IsNull (Some [30, 1, 2 :: nat]) \<and> \<not> IsNull (Some [2, 30, 1 :: nat])
   \<and> Equal (Some [30, 1, 2 :: nat]) (Some [2, 30, 1])
   \<and> String nat_ID_String (Some [30, 1, 2]) = ''set[1,2,30]''
   \<and> String nat_ID_String (Some [2, 30, 1]) = ''set[1,2,30]''
   \<and> MarshalJSON nat_MarshalJSON (Some [30, 1, 2]) = MarshalJSON nat_MarshalJSON (Some [2, 30, 1])
   \<and> Value nat_Value (Some [30, 1, 2]) = Value nat_Value (Some [2, 30, 1])"
proof -
  have h1: "IDSet_inv (Some [30, 1, 2 :: nat])" by code_simp
  have h2: "IDSet_inv (Some [2, 30, 1 :: nat])" by code_simp
  have h3: "\<not> IsNull (Some [30, 1, 2 :: nat])" by (simp add: IsNull_def)
  have h4: "\<not> IsNull (Some [2, 30, 1 :: nat])" by (simp add: IsNull_def)
  have h5: "Equal (Some [30, 1, 2 :: nat]) (Some [2, 30, 1])" by code_simp
  have s: "String nat_ID_String (Some [30, 1, 2]) = ''set[1,2,30]''" by code_simp
  from serialization_deterministic [OF h1 h2 h3 h4 h5, of nat_ID_String nat_MarshalJSON nat_Value]
    h1 h2 h3 h4 h5 s
  show ?thesis by metis
qed

text \<open>
  C4: the nil set and the null sentinel. \<open>MarshalJSON\<close> of the nil set is the token
  \<open>null\<close> and \<open>Value\<close> of the nil set is NULL, both without error. \<open>UnmarshalJSON\<close> of
  the token \<open>null\<close> and \<open>Scan\<close> of the nil value assign nil to the target, whatever the
  target held before: the new value is null, and it is not the allocated empty set.
\<close>

theorem null_sentinel:
  "MarshalJSON sliceMarshalJSON None = (''null'', None)
   \<and> Value sliceValue None = (None, None)
   \<and> UnmarshalJSON sliceUnmarshalJSON asSet ''null'' target = (None, None)
   \<and> Scan sliceScan asSet None target = (None, None)
   \<and> IsNull (fst (UnmarshalJSON sliceUnmarshalJSON asSet ''null'' target))
   \<and> IsNull (fst (Scan sliceScan asSet None target))
   \<and> fst (UnmarshalJSON sliceUnmarshalJSON asSet ''null'' target) \<noteq> Some []
   \<and> fst (Scan sliceScan asSet None target) \<noteq> Some []"
  by (simp add: MarshalJSON_def Value_def UnmarshalJSON_def Scan_def IsNull_def)

subsection \<open>Parsing what String prints\<close>

lemma Split_no_sep: "sep \<notin> set s \<Longrightarrow> Split s sep = [s]"
  by (induction s) auto

lemma Split_ne: "Split s sep \<noteq> []"
  by (induction s) (auto split: list.splits)

lemma Split_append_sep:
  "sep \<notin> set x \<Longrightarrow> Split (x @ sep # rest) sep = x # Split rest sep"
  by (induction x) (auto split: list.splits)

lemma Split_Join:
  "sl \<noteq> [] \<Longrightarrow> \<forall>s\<in>set sl. sep \<notin> set s \<Longrightarrow> Split (Join sl [sep]) sep = sl"
proof (induction sl "[sep]" rule: Join.induct)
  case 1
  then show ?case by simp
next
  case (2 x)
  then show ?case by (simp add: Split_no_sep)
next
  case (3 x y ys)
  then show ?case by (simp add: Split_append_sep)
qed

lemma Join_empty_iff:
  "\<forall>s\<in>set sl. s \<noteq> [] \<Longrightarrow> (Join sl sep = []) = (sl = [])"
  by (induction sl sep rule: Join.induct) auto

lemma HasPrefix_bracket: "HasPrefix (''['' @ s) ''[''"
  by (simp add: HasPrefix_def)

lemma HasSuffix_bracket: "HasSuffix (s @ '']'') '']''"
  by (simp add: HasSuffix_def)

lemma slice_brackets: "slice (''['' @ s @ '']'') 1 (length (''['' @ s @ '']'') - 1) = s"
  by (simp add: slice_def)

lemma IDSetFromString_String:
  "IDSetFromString idFromString trimSpace (String idString S) =
     (let str = Join (map idString (AsSortedSlice S)) '',''
      in if str = [] then (None, None)
         else MakeIDSetFromStrings idFromString (map trimSpace (Split str CHR '','')))"
proof -
  let ?J = "Join (map idString (AsSortedSlice S)) '',''"
  have t: "TrimPrefix (String idString S) ''set'' = ''['' @ ?J @ '']''"
    unfolding String_def IDSlice_String_def by (rule TrimPrefix_append)
  have p: "HasPrefix (''['' @ ?J @ '']'') ''[''" by (rule HasPrefix_bracket)
  have s: "HasSuffix (''['' @ ?J @ '']'') '']''"
    using HasSuffix_bracket [of "''['' @ ?J"] by simp
  show ?thesis
    unfolding IDSetFromString_def t Let_def using p s slice_brackets [of ?J]
    by simp
qed

text \<open>
  C2: round trips. Let \<open>S\<close> be a set (nil, empty or populated; its keys distinct).
  Text: if every identifier of \<open>S\<close> prints as a non-empty string without a comma that,
  trimmed, parses back to the identifier, then \<open>IDSetFromString\<close> of \<open>String S\<close>
  returns no error and a set \<open>Equal\<close> to \<open>S\<close>.
  JSON: if the slice encoder encodes the sorted projection of \<open>S\<close> without error, to the
  token \<open>null\<close> only when the projection is empty, and the slice decoder decodes any
  other output to a slice of the same identifiers, which \<open>AsSet\<close> turns into a map of
  just these identifiers, then \<open>UnmarshalJSON\<close> of the output of \<open>MarshalJSON S\<close>
  returns no error and assigns a set \<open>Equal\<close> to \<open>S\<close> to the target.
\<close>

theorem roundtrip:
  fixes S :: "'id::linorder IDSet"
  assumes "IDSet_inv S"
    and "\<forall>x\<in>set (range_keys S). idString x \<noteq> [] \<and> CHR '','' \<notin> set (idString x)
          \<and> idFromString (trimSpace (idString x)) = Inr x"
    and "sliceMarshalJSON (AsSortedSlice S) = (data, None)"
    and "data = ''null'' \<longrightarrow> AsSortedSlice S = []"
    and "data \<noteq> ''null'' \<longrightarrow> sliceUnmarshalJSON data = Inr sl \<and> set sl = set (AsSortedSlice S)
          \<and> IDSet_inv (asSet sl) \<and> (\<forall>x. Contains (asSet sl) x = (x \<in> set sl))"
  shows "(\<exists>S'. IDSetFromString idFromString trimSpace (String idString S) = (S', None) \<and> Equal S' S)
    \<and> (\<exists>S'. UnmarshalJSON sliceUnmarshalJSON asSet (fst (MarshalJSON sliceMarshalJSON S)) target
               = (S', None) \<and> Equal S' S)"
proof -
  let ?sl = "AsSortedSlice S"
  have set_sl: "set ?sl = set (range_keys S)" by (simp add: AsSortedSlice_sort)
  have rt_text: "\<exists>S'. IDSetFromString idFromString trimSpace (String idString S) = (S', None) \<and> Equal S' S"
  proof (cases "?sl = []")
    case True
    then have "range_keys S = []" using set_sl by (metis set_empty)
    then have "Equal None S" by (simp add: Equal_def len_range_keys range_keys_def)
    with True show ?thesis by (simp add: IDSetFromString_String)
  next
    case False
    let ?strs = "map idString ?sl"
    from assms(2) set_sl have ne: "\<forall>s\<in>set ?strs. s \<noteq> []"
      and nc: "\<forall>s\<in>set ?strs. CHR '','' \<notin> set s" by auto
    from False have "?strs \<noteq> []" by simp
    with ne have J: "Join ?strs '','' \<noteq> []" by (simp add: Join_empty_iff)
    from \<open>?strs \<noteq> []\<close> nc have sp: "Split (Join ?strs '','') CHR '','' = ?strs"
      by (rule Split_Join)
    let ?toks = "map trimSpace ?strs"
    have parse: "\<forall>x\<in>set ?sl. idFromString (trimSpace (idString x)) = Inr x"
      using assms(2) set_sl by simp
    then have "find (\<lambda>str. isl (idFromString str)) ?toks = None"
      by (auto simp: find_None_iff)
    from MakeIDSetFromStrings_loop_all_valid [OF this, of "[]"]
    obtain ks where ks: "MakeIDSetFromStrings idFromString ?toks = (Some ks, None)"
      "distinct ks" "set ks = Inr -` (idFromString ` set ?toks)"
      by (auto simp: MakeIDSetFromStrings_def)
    have "Inr -` (idFromString ` set ?toks) = set ?sl"
      using parse by (auto simp: image_iff)
    with ks set_sl have "set (range_keys (Some ks)) = set (range_keys S)"
      by (simp add: range_keys_def)
    moreover have "IDSet_inv (Some ks)" using ks(2) by (simp add: IDSet_inv_def)
    ultimately have "Equal (Some ks) S" using assms(1) by (simp add: Equal_iff_same_keys)
    with J sp ks(1) show ?thesis by (simp add: IDSetFromString_String)
  qed
  have rt_json: "\<exists>S'. UnmarshalJSON sliceUnmarshalJSON asSet (fst (MarshalJSON sliceMarshalJSON S)) target
               = (S', None) \<and> Equal S' S"
  proof (cases S)
    case None
    then show ?thesis
      by (simp add: MarshalJSON_def UnmarshalJSON_def Equal_def len_def range_keys_def)
  next
    case (Some ks)
    then have m: "fst (MarshalJSON sliceMarshalJSON S) = data"
      using assms(3) by (simp add: MarshalJSON_def)
    show ?thesis
    proof (cases "data = ''null''")
      case True
      with assms(4) set_sl have "range_keys S = []" by simp
      then have "Equal None S" by (simp add: Equal_def len_range_keys range_keys_def)
      with True m show ?thesis by (simp add: UnmarshalJSON_def)
    next
      case False
      with assms(5) have dec: "sliceUnmarshalJSON data = Inr sl"
        and s: "set sl = set ?sl" and inv: "IDSet_inv (asSet sl)"
        and c: "\<forall>x. Contains (asSet sl) x = (x \<in> set sl)" by simp_all
      from c have "set (range_keys (asSet sl)) = set sl"
        by (auto simp: Contains_range_keys)
      with s set_sl inv assms(1) have "Equal (asSet sl) S"
        by (simp add: Equal_iff_same_keys)
      with False m dec show ?thesis by (simp add: UnmarshalJSON_def)
    qed
  qed
  from rt_text rt_json show ?thesis by simp
qed

theorem roundtrip_witness:
  "IDSet_inv (Some [30, 1, 2 :: nat])
   \<and> list_all (\<lambda>x. nat_ID_String x \<noteq> [] \<and> CHR '','' \<notin> set (nat_ID_String x)
         \<and> nat_IDFromString (ascii_TrimSpace (nat_ID_String x)) = Inr x)
       (range_keys (Some [30, 1, 2 :: nat]))
   \<and> nat_MarshalJSON (AsSortedSlice (Some [30, 1, 2 :: nat])) = (''[1,2,30]'', None)
   \<and> nat_UnmarshalJSON ''[1,2,30]'' = Inr [1, 2, 30]
   \<and> IDSet_inv (fresh_AsSet [1, 2, 30 :: nat])
   \<and> (\<exists>S'. IDSetFromString nat_IDFromString ascii_TrimSpace (String nat_ID_String (Some [30, 1, 2]))
             = (S', None) \<and> Equal S' (Some [30, 1, 2]))
   \<and> (\<exists>S'. UnmarshalJSON nat_UnmarshalJSON fresh_AsSet
               (fst (MarshalJSON nat_MarshalJSON (Some [30, 1, 2]))) (Some [5])
             = (S', None) \<and> Equal S' (Some [30, 1, 2]))"
proof -
  have h1: "IDSet_inv (Some [30, 1, 2 :: nat])" by code_simp
  have h2: "\<forall>x\<in>set (range_keys (Some [30, 1, 2 :: nat])).
         nat_ID_String x \<noteq> [] \<and> CHR '','' \<notin> set (nat_ID_String x)
         \<and> nat_IDFromString (ascii_TrimSpace (nat_ID_String x)) = Inr x" by code_simp
  have h3: "nat_MarshalJSON (AsSortedSlice (Some [30, 1, 2 :: nat])) = (''[1,2,30]'', None)"
    by code_simp
  have h4: "''[1,2,30]'' = ''null'' \<longrightarrow> AsSortedSlice (Some [30, 1, 2 :: nat]) = []" by simp
  have d: "nat_UnmarshalJSON ''[1,2,30]'' = Inr [1, 2, 30]" by code_simp
  have i: "IDSet_inv (fresh_AsSet [1, 2, 30 :: nat])" by code_simp
  have c: "\<forall>x. Contains (fresh_AsSet [1, 2, 30 :: nat]) x = (x \<in> set [1, 2, 30])"
    by (auto simp: fresh_AsSet_def Contains_def)
  have srt: "set [1, 2, 30 :: nat] = set (AsSortedSlice (Some [30, 1, 2 :: nat]))"
    by (simp add: AsSortedSlice_sort range_keys_def)
  have h5: "''[1,2,30]'' \<noteq> ''null'' \<longrightarrow> nat_UnmarshalJSON ''[1,2,30]'' = Inr [1, 2, 30]
      \<and> set [1, 2, 30 :: nat] = set (AsSortedSlice (Some [30, 1, 2 :: nat]))
      \<and> IDSet_inv (fresh_AsSet [1, 2, 30 :: nat])
      \<and> (\<forall>x. Contains (fresh_AsSet [1, 2, 30 :: nat]) x = (x \<in> set [1, 2, 30]))"
    using d i c srt by blast
  from roundtrip [where S = "Some [30, 1, 2 :: nat]" and idString = nat_ID_String
      and idFromString = nat_IDFromString and trimSpace = ascii_TrimSpace
      and sliceMarshalJSON = nat_MarshalJSON and data = "''[1,2,30]''"
      and sliceUnmarshalJSON = nat_UnmarshalJSON and sl = "[1, 2, 30]"
      and asSet = fresh_AsSet and target = "Some [5]", OF h1 h2 h3 h4 h5]
    h1 h2 h3 d i
  show ?thesis unfolding list_all_iff by blast
qed

subsection \<open>Clone and the store\<close>

lemma Add_frame:
  "Add h s x = Inr h' \<Longrightarrow> length h' = length h \<and> (\<forall>b. MapAt b \<noteq> s \<longrightarrow> h' ! b = h ! b)"
  by (auto simp: Add_def split: mapref.splits)

lemma AddSlice_frame:
  "AddSlice h s sl = Inr h' \<Longrightarrow> length h' = length h \<and> (\<forall>b. MapAt b \<noteq> s \<longrightarrow> h' ! b = h ! b)"
proof (induction sl arbitrary: h)
  case Nil
  then show ?case by simp
next
  case (Cons x sl)
  from Cons.prems obtain h1 where a: "Add h s x = Inr h1" and r: "AddSlice h1 s sl = Inr h'"
    by (auto split: sum.splits)
  from Add_frame [OF a] Cons.IH [OF r] show ?case by simp
qed

lemma Delete_frame:
  "length (Delete h s x) = length h \<and> (\<forall>b. MapAt b \<noteq> s \<longrightarrow> Delete h s x ! b = h ! b)"
  by (auto simp: Delete_def split: mapref.splits)

lemma DeleteSlice_frame:
  "length (DeleteSlice h s sl) = length h \<and> (\<forall>b. MapAt b \<noteq> s \<longrightarrow> DeleteSlice h s sl ! b = h ! b)"
  by (induction sl arbitrary: h) (simp_all add: Delete_frame)

lemma Clear_frame:
  "length (Clear h s) = length h \<and> (\<forall>b. MapAt b \<noteq> s \<longrightarrow> Clear h s ! b = h ! b)"
  by (auto simp: Clear_def split: mapref.splits)

lemma run_call_frame:
  "run_call h s c = Inr h' \<Longrightarrow> length h' = length h \<and> (\<forall>b. MapAt b \<noteq> s \<longrightarrow> h' ! b = h ! b)"
proof (cases c)
  case (CallAdd x)
  then show "run_call h s c = Inr h' \<Longrightarrow> ?thesis" using Add_frame [of h s x h'] by simp
next
  case (CallAddSlice sl)
  then show "run_call h s c = Inr h' \<Longrightarrow> ?thesis" using AddSlice_frame [of h s sl h'] by simp
next
  case (CallAddSet other)
  then show "run_call h s c = Inr h' \<Longrightarrow> ?thesis"
    using AddSlice_frame [of h s "range_keys (deref h other)" h'] by (simp add: AddSet_def)
next
  case (CallDelete x)
  then show "run_call h s c = Inr h' \<Longrightarrow> ?thesis" using Delete_frame [of h s x] by auto
next
  case (CallDeleteSlice sl)
  then show "run_call h s c = Inr h' \<Longrightarrow> ?thesis" using DeleteSlice_frame [of h s sl] by auto
next
  case (CallDeleteSet other)
  then show "run_call h s c = Inr h' \<Longrightarrow> ?thesis"
    using DeleteSlice_frame [of h s "range_keys (deref h other)"] by (auto simp: DeleteSet_def)
next
  case CallClear
  then show "run_call h s c = Inr h' \<Longrightarrow> ?thesis" using Clear_frame [of h s] by auto
qed

lemma run_calls_frame:
  "run_calls h s cs = Inr h' \<Longrightarrow> length h' = length h \<and> (\<forall>b. MapAt b \<noteq> s \<longrightarrow> h' ! b = h ! b)"
proof (induction cs arbitrary: h)
  case Nil
  then show ?case by simp
next
  case (Cons c cs)
  from Cons.prems obtain h1 where a: "run_call h s c = Inr h1" and r: "run_calls h1 s cs = Inr h'"
    by (auto split: sum.splits)
  from run_call_frame [OF a] Cons.IH [OF r] show ?case by simp
qed

text \<open>
  C9: \<open>Clone\<close> of the nil set is the nil set, in an unchanged store. \<open>Clone\<close> of an
  allocated set \<open>s\<close> returns a reference \<open>c\<close> to another map, which is not nil and
  is \<open>Equal\<close> to \<open>s\<close>, and leaves \<open>s\<close> as it was. After any sequence of mutating calls
  on the clone, \<open>s\<close> still has the keys it had; after any sequence of mutating calls
  on \<open>s\<close>, the clone still has the keys it was made with.
\<close>

theorem Clone_null_and_independent:
  assumes "a < length h"
    and "Clone h (MapAt a) = (c, h1)"
    and "run_calls h1 c calls_on_clone = Inr h2"
    and "run_calls h1 (MapAt a) calls_on_s = Inr h3"
  shows "Clone h NilMap = (NilMap, h) \<and> IsNull (deref h NilMap)
    \<and> \<not> IsNull (deref h1 c)
    \<and> c \<noteq> MapAt a
    \<and> deref h1 (MapAt a) = deref h (MapAt a)
    \<and> Equal (deref h1 c) (deref h1 (MapAt a))
    \<and> deref h2 (MapAt a) = deref h (MapAt a)
    \<and> deref h3 c = deref h1 c"
proof -
  from assms(2) have c: "c = MapAt (length h)" and h1: "h1 = h @ [h ! a]"
    by (simp_all add: Clone_def)
  have ne: "MapAt a \<noteq> c" using assms(1) c by simp
  have same: "deref h1 (MapAt a) = deref h (MapAt a)"
    using assms(1) h1 by (simp add: deref_def nth_append)
  have clone: "deref h1 c = Some (h ! a)"
    using c h1 by (simp add: deref_def)
  have eq: "Equal (deref h1 c) (deref h1 (MapAt a))"
    using same clone assms(1)
    by (simp add: deref_def Equal_def Equal_loop_iff len_range_keys)
  from run_calls_frame [OF assms(3)] ne have "h2 ! a = h1 ! a" by simp
  then have m1: "deref h2 (MapAt a) = deref h (MapAt a)"
    using same by (simp add: deref_def)
  from run_calls_frame [OF assms(4)] ne c have "h3 ! length h = h1 ! length h" by auto
  then have m2: "deref h3 c = deref h1 c"
    using c by (simp add: deref_def)
  show ?thesis
    using ne same clone eq m1 m2
    by (auto simp: Clone_def deref_def IsNull_def)
qed

theorem Clone_null_and_independent_witness:
  "(0 :: nat) < length [[1, 2 :: nat]]
   \<and> Clone [[1, 2 :: nat]] (MapAt 0) = (MapAt 1, [[1, 2], [1, 2]])
   \<and> run_calls [[1, 2 :: nat], [1, 2]] (MapAt 1) [CallAdd 3, CallDelete 1] = Inr [[1, 2], [2, 3]]
   \<and> run_calls [[1, 2 :: nat], [1, 2]] (MapAt 0) [CallClear, CallAddSlice [7, 7]] = Inr [[7], [1, 2]]
   \<and> deref [[1, 2 :: nat], [2, 3]] (MapAt 0) = deref [[1, 2]] (MapAt 0)
   \<and> deref [[7 :: nat], [1, 2]] (MapAt 1) = deref [[1, 2], [1, 2]] (MapAt 1)"
proof -
  have h1: "(0 :: nat) < length [[1, 2 :: nat]]" by simp
  have h2: "Clone [[1, 2 :: nat]] (MapAt 0) = (MapAt 1, [[1, 2], [1, 2]])"
    by (simp add: Clone_def)
  have h3: "run_calls [[1, 2 :: nat], [1, 2]] (MapAt 1) [CallAdd 3, CallDelete 1] = Inr [[1, 2], [2, 3]]"
    by (simp add: Add_def Delete_def map_assign_def map_delete_def)
  have h4: "run_calls [[1, 2 :: nat], [1, 2]] (MapAt 0) [CallClear, CallAddSlice [7, 7]] = Inr [[7], [1, 2]]"
    by (simp add: Clear_def Add_def map_assign_def)
  from Clone_null_and_independent [OF h1 h2 h3 h4] h1 h2 h3 h4 show ?thesis by simp
qed

end
